theory Spec2Isabelle
  imports Complex_Main
begin

section \<open>Python string primitives used by \<^verbatim>\<open>app/services/qa_service.py\<close>\<close>

text \<open>
  Text is a \<^typ>\<open>string\<close>, one \<^typ>\<open>char\<close> per character. The character classes below are
  Python's on ASCII: \<^verbatim>\<open>str.isspace\<close> (also what \<^verbatim>\<open>strip()\<close>, \<^verbatim>\<open>split()\<close> and the regex class
  \<^verbatim>\<open>\s\<close> use), the regex class \<^verbatim>\<open>\w\<close>, \<^verbatim>\<open>str.isupper\<close>, \<^verbatim>\<open>str.upper\<close> and \<^verbatim>\<open>str.lower\<close>.
  Python's classes are those of Unicode; the classes here are their ASCII part, and a
  character above 127 is in none of them (no whitespace, no word character, no case), which
  is not what Python does with a letter such as \<^verbatim>\<open>0xE9\<close>. The development is about ASCII text:
  a statement that depends on a character class says so in terms of these ASCII classes.
\<close>

definition isspace :: "char \<Rightarrow> bool" where
  "isspace c = (let n = (of_char c :: int) in (9 \<le> n \<and> n \<le> 13) \<or> (28 \<le> n \<and> n \<le> 32))"

definition islower :: "char \<Rightarrow> bool" where
  "islower c = (let n = (of_char c :: int) in 97 \<le> n \<and> n \<le> 122)"

definition isupper :: "char \<Rightarrow> bool" where
  "isupper c = (let n = (of_char c :: int) in 65 \<le> n \<and> n \<le> 90)"

definition isdigit :: "char \<Rightarrow> bool" where
  "isdigit c = (let n = (of_char c :: int) in 48 \<le> n \<and> n \<le> 57)"

definition is_word_char :: "char \<Rightarrow> bool" where
  "is_word_char c = (islower c \<or> isupper c \<or> isdigit c \<or> c = CHR ''_'')"

definition upper_char :: "char \<Rightarrow> char" where
  "upper_char c = (if islower c then char_of ((of_char c :: int) - 32) else c)"

definition lower_char :: "char \<Rightarrow> char" where
  "lower_char c = (if isupper c then char_of ((of_char c :: int) + 32) else c)"

definition upper :: "string \<Rightarrow> string" where
  "upper s = map upper_char s"

definition lower :: "string \<Rightarrow> string" where
  "lower s = map lower_char s"

definition strip :: "string \<Rightarrow> string" where
  "strip s = rev (dropWhile isspace (rev (dropWhile isspace s)))"

text \<open>\<^verbatim>\<open>s.split(sep)\<close> for a one-character separator: \<open>n\<close> separators give \<open>n + 1\<close> pieces.\<close>

fun split_on :: "char \<Rightarrow> string \<Rightarrow> string list" where
  "split_on sep [] = [[]]"
| "split_on sep (c # cs) =
     (if c = sep then [] # split_on sep cs
      else (case split_on sep cs of
              [] \<Rightarrow> [[c]]
            | p # ps \<Rightarrow> (c # p) # ps))"

text \<open>\<^verbatim>\<open>s.split()\<close>: the maximal runs of non-whitespace characters.\<close>

fun split_acc :: "string \<Rightarrow> string \<Rightarrow> string list" where
  "split_acc cur [] = (if cur = [] then [] else [cur])"
| "split_acc cur (c # cs) =
     (if isspace c then (if cur = [] then split_acc [] cs else cur # split_acc [] cs)
      else split_acc (cur @ [c]) cs)"

definition split_ws :: "string \<Rightarrow> string list" where
  "split_ws s = split_acc [] s"

text \<open>\<^verbatim>\<open>sep.join(parts)\<close>.\<close>

fun join :: "string \<Rightarrow> string list \<Rightarrow> string" where
  "join sep [] = []"
| "join sep [p] = p"
| "join sep (p # q # ps) = p @ sep @ join sep (q # ps)"

definition startswith :: "string \<Rightarrow> string \<Rightarrow> bool" where
  "startswith s pre = (take (length pre) s = pre)"

definition endswith_char :: "string \<Rightarrow> char \<Rightarrow> bool" where
  "endswith_char s c = (s \<noteq> [] \<and> last s = c)"

text \<open>\<^verbatim>\<open>s.find(sub)\<close>: the lowest index where \<open>sub\<close> starts, \<open>-1\<close> when there is none.\<close>

fun find_from :: "nat \<Rightarrow> string \<Rightarrow> string \<Rightarrow> int" where
  "find_from i sub [] = (if sub = [] then int i else - 1)"
| "find_from i sub (c # cs) =
     (if startswith (c # cs) sub then int i else find_from (Suc i) sub cs)"

definition find :: "string \<Rightarrow> string \<Rightarrow> int" where
  "find s sub = find_from 0 sub s"

definition contains :: "string \<Rightarrow> string \<Rightarrow> bool" where
  "contains s sub = (0 \<le> find s sub)"

text \<open>\<^verbatim>\<open>s.rfind(c)\<close> for one character: the highest index of \<open>c\<close>, \<open>-1\<close> when there is none.\<close>

fun rfind_from :: "nat \<Rightarrow> int \<Rightarrow> char \<Rightarrow> string \<Rightarrow> int" where
  "rfind_from i best c [] = best"
| "rfind_from i best c (x # xs) = rfind_from (Suc i) (if x = c then int i else best) c xs"

definition rfind :: "string \<Rightarrow> char \<Rightarrow> int" where
  "rfind s c = rfind_from 0 (- 1) c s"

text \<open>
  \<^verbatim>\<open>xs[start:end]\<close> with Python's treatment of the bounds: a negative index counts from
  the end, and every index is clamped into \<open>0..len(xs)\<close>.
\<close>

definition slice_index :: "nat \<Rightarrow> int \<Rightarrow> nat" where
  "slice_index n i = (if i < 0 then nat (max 0 (int n + i)) else min n (nat i))"

definition slice :: "'a list \<Rightarrow> int \<Rightarrow> int \<Rightarrow> 'a list" where
  "slice xs start end =
     (let lo = slice_index (length xs) start; hi = slice_index (length xs) end
      in take (hi - lo) (drop lo xs))"

text \<open>\<^verbatim>\<open>re.findall(r'\w+', s)\<close>: the maximal runs of word characters.\<close>

fun findall_acc :: "string \<Rightarrow> string \<Rightarrow> string list" where
  "findall_acc cur [] = (if cur = [] then [] else [cur])"
| "findall_acc cur (c # cs) =
     (if is_word_char c then findall_acc (cur @ [c]) cs
      else (if cur = [] then findall_acc [] cs else cur # findall_acc [] cs))"

definition findall_words :: "string \<Rightarrow> string list" where
  "findall_words s = findall_acc [] s"

section \<open>The answer finalizer: \<^verbatim>\<open>post_process_answer\<close>\<close>

definition post_process_answer :: "string \<Rightarrow> string \<Rightarrow> string" where
  "post_process_answer answer question =
     (if answer = [] then answer
      else
        let sentences = split_on CHR ''.'' answer;
            answer1 = (if length sentences > 1 \<and> length (strip (last sentences)) < 10
                       then join ''.'' (butlast sentences) @ ''.''
                       else answer);
            answer2 = (if answer1 \<noteq> [] \<and> \<not> isupper (hd answer1)
                       then upper [hd answer1] @ tl answer1
                       else answer1);
            answer3 = (if answer2 \<noteq> [] \<and>
                          \<not> (endswith_char answer2 CHR ''.'' \<or> endswith_char answer2 CHR ''!''
                             \<or> endswith_char answer2 CHR ''?'')
                       then answer2 @ ''.''
                       else answer2)
        in strip answer3)"

text \<open>The characters that line 349 accepts at the end of an answer.\<close>

definition is_terminator :: "char \<Rightarrow> bool" where
  "is_terminator c = (c = CHR ''.'' \<or> c = CHR ''!'' \<or> c = CHR ''?'')"

text \<open>The 52 letters of ASCII, \<^verbatim>\<open>a\<close> to \<^verbatim>\<open>z\<close> and \<^verbatim>\<open>A\<close> to \<^verbatim>\<open>Z\<close>.\<close>

definition is_ascii_letter :: "char \<Rightarrow> bool" where
  "is_ascii_letter c = (islower c \<or> isupper c)"

section \<open>The text normalizer: \<^verbatim>\<open>preprocess_text\<close> and \<^verbatim>\<open>preprocess_question\<close>\<close>

text \<open>\<^verbatim>\<open>re.sub(r'\s+', ' ', s)\<close>: every maximal run of whitespace becomes one space. The flag
  says whether the previous character was whitespace (the run has already been replaced).\<close>

fun sub_whitespace :: "bool \<Rightarrow> string \<Rightarrow> string" where
  "sub_whitespace in_run [] = []"
| "sub_whitespace in_run (c # cs) =
     (if isspace c then (if in_run then sub_whitespace True cs
                         else CHR '' '' # sub_whitespace True cs)
      else c # sub_whitespace False cs)"

text \<open>
  \<^verbatim>\<open>re.sub(r'\b(\w+)\1+\b', r'\1', s)\<close>, as the backtracking matcher runs it. A match can
  only start where a word starts (\<^verbatim>\<open>\b\<close> before a word character). The group and the copies
  that the backreference matches are word characters, so the match lies in the run of word
  characters that starts there. The group \<^verbatim>\<open>(\w+)\<close> is tried greedily, longest first
  (\<open>try_group\<close>); for each group the backreference \<^verbatim>\<open>\1+\<close> is tried greedily, most copies
  first (\<open>try_reps\<close>), and the match succeeds at the first end position that is a word
  boundary. The backreference follows the group immediately: the pattern has nothing
  between them, so no whitespace can separate the copies. The match is replaced by the
  group and the scan goes on after the match.
\<close>

fun try_reps :: "string \<Rightarrow> string \<Rightarrow> nat \<Rightarrow> nat option" where
  "try_reps run u 0 = None"
| "try_reps run u (Suc k) =
     (let e = length u * Suc (Suc k)
      in if take e run = concat (replicate (Suc (Suc k)) u) \<and>
            (if length run \<le> e then True else \<not> is_word_char (run ! e))
         then Some e
         else try_reps run u k)"

fun try_group :: "string \<Rightarrow> nat \<Rightarrow> (string \<times> nat) option" where
  "try_group run 0 = None"
| "try_group run (Suc g) =
     (case try_reps run (take (Suc g) run) (length run div Suc g) of
        Some e \<Rightarrow> Some (take (Suc g) run, e)
      | None \<Rightarrow> try_group run g)"

definition match_repeated :: "string \<Rightarrow> (string \<times> nat) option" where
  "match_repeated s = (let run = takeWhile is_word_char s in try_group run (length run))"

function sub_repeated :: "bool \<Rightarrow> string \<Rightarrow> string" where
  "sub_repeated prev [] = []"
| "sub_repeated prev (c # cs) =
     (if \<not> prev \<and> is_word_char c
      then (case match_repeated (c # cs) of
              Some (u, e) \<Rightarrow> u @ sub_repeated True (drop e (c # cs))
            | None \<Rightarrow> c # sub_repeated True cs)
      else c # sub_repeated (is_word_char c) cs)"
  by pat_completeness auto
text \<open>\<^verbatim>\<open>re.sub(r'[^\w\s.,!?;:()-]', '', s)\<close>: only the characters of the allow-list stay.\<close>

definition allowed_char :: "char \<Rightarrow> bool" where
  "allowed_char c = (is_word_char c \<or> isspace c \<or> c \<in> set ''.,!?;:()-'')"

definition capitalize_sentence :: "string \<Rightarrow> string" where
  "capitalize_sentence sentence =
     (if length sentence > 1 then upper [hd sentence] @ tl sentence else upper sentence)"

definition preprocess_text :: "string \<Rightarrow> string" where
  "preprocess_text text =
     (if text = [] then []
      else
        let text1 = sub_whitespace False (strip text);
            text2 = sub_repeated False text1;
            text3 = filter allowed_char text2;
            sentences = split_on CHR ''.'' text3;
            processed_sentences =
              map capitalize_sentence (filter (\<lambda>sentence. sentence \<noteq> []) (map strip sentences))
        in join ''. '' processed_sentences)"

definition preprocess_question :: "string \<Rightarrow> string" where
  "preprocess_question question =
     (if question = [] then []
      else
        let question1 = strip question;
            question2 = (if \<not> endswith_char question1 CHR ''?'' then question1 @ ''?''
                         else question1);
            question3 = (if question2 \<noteq> [] then upper [hd question2] @ tl question2
                         else question2)
        in question3)"

section \<open>The window segmenter: \<^verbatim>\<open>smart_chunking\<close>\<close>

text \<open>
  The test \<^verbatim>\<open>sentence_end > len(chunk_text) * 0.7\<close> multiplies in double precision and
  compares the integer with the rounded product exactly. The double nearest to \<open>0.7\<close> is
  \<open>float_070_mantissa / 2 ^ 53\<close>; the exact product of the length with it is rounded to 53
  significant bits, ties to even (\<open>bit_length\<close> counts the bits of the exact product, which
  has at most \<open>len + 53\<close> of them). (For a length of 90 the rounded product is below 63, so
  an index of 63 passes the test although \<open>63 = 0.7 * 90\<close>.) Lengths are below \<open>2 ^ 53\<close>, so
  the conversion of the length to a double is exact.
\<close>

definition float_070_mantissa :: int where
  "float_070_mantissa = 6305039478318694"

fun bit_length :: "nat \<Rightarrow> int \<Rightarrow> nat" where
  "bit_length 0 n = 0"
| "bit_length (Suc fuel) n = (if n \<le> 0 then 0 else Suc (bit_length fuel (n div 2)))"

definition exceeds_070_of :: "int \<Rightarrow> nat \<Rightarrow> bool" where
  "exceeds_070_of sentence_end len =
     (let p = int len * float_070_mantissa;
          k = bit_length (len + 53) p - 53;
          q = p div 2 ^ k;
          r = p mod 2 ^ k;
          q' = (if 2 ^ k < 2 * r \<or> (2 * r = 2 ^ k \<and> odd q) then q + 1 else q)
      in q' * 2 ^ k < sentence_end * 2 ^ 53)"

text \<open>
  One pass of the body of the \<^verbatim>\<open>while\<close> loop, up to \<^verbatim>\<open>chunks.append(chunk_text)\<close>: the
  window's text and the recomputed \<^verbatim>\<open>end\<close>. The keyword set \<^verbatim>\<open>question_words\<close> is computed by
  the source before the loop and never read, so the question does not occur here.
\<close>

definition chunk_step :: "string list \<Rightarrow> int \<Rightarrow> int \<Rightarrow> string \<times> int" where
  "chunk_step words max_length start =
     (let n = int (length words);
          end = min (start + max_length) n;
          chunk_words = slice words start end;
          chunk_text = join '' '' chunk_words
      in if end < n
         then
           let last_period = rfind chunk_text CHR ''.'';
               last_exclamation = rfind chunk_text CHR ''!'';
               last_question = rfind chunk_text CHR ''?'';
               sentence_end = max (max last_period last_exclamation) last_question
           in if exceeds_070_of sentence_end (length chunk_text)
              then
                let chunk_text' = slice chunk_text 0 (sentence_end + 1)
                in (chunk_text', start + int (length (split_ws chunk_text')))
              else (chunk_text, end)
         else (chunk_text, end))"

text \<open>
  The \<^verbatim>\<open>while\<close> loop. Nothing in the source bounds the number of passes, so the loop is a
  partial function: \<open>None\<close> is the run that never leaves the loop.
\<close>

partial_function (option) smart_chunking_loop ::
  "string list \<Rightarrow> int \<Rightarrow> int \<Rightarrow> string list \<Rightarrow> int \<Rightarrow> string list option" where
  "smart_chunking_loop words max_length overlap chunks start =
     (if start < int (length words)
      then
        (if int (length words) \<le> snd (chunk_step words max_length start)
         then Some (chunks @ [fst (chunk_step words max_length start)])
         else smart_chunking_loop words max_length overlap
                (chunks @ [fst (chunk_step words max_length start)])
                (snd (chunk_step words max_length start) - overlap))
      else Some chunks)"

declare smart_chunking_loop.simps [code]

definition smart_chunking :: "string \<Rightarrow> string \<Rightarrow> int \<Rightarrow> int \<Rightarrow> string list option" where
  "smart_chunking text question max_length overlap =
     (let words = split_ws text
      in if int (length words) \<le> max_length then Some [text]
         else smart_chunking_loop words max_length overlap [] 0)"

section \<open>The quality scorer: \<^verbatim>\<open>calculate_answer_quality\<close>\<close>

text \<open>
  Scores are Python floats; they are modelled as real numbers, without rounding. Sums such
  as \<open>0.7 + 0.1\<close> are exact here and rounded in the source, so the ranking of two candidates
  whose adjusted scores differ by a rounding error can differ from the source's.
\<close>

definition generic_phrases :: "string list" where
  "generic_phrases = [''i don'' @ [CHR 0x27] @ ''t know'', ''not sure'', ''unclear'', ''maybe'', ''possibly'']"

definition keyword_overlap :: "string \<Rightarrow> string \<Rightarrow> nat" where
  "keyword_overlap question answer =
     (let question_words = findall_words (lower question);
          answer_words = findall_words (lower answer)
      in length (remdups (filter (\<lambda>w. w \<in> set answer_words) question_words)))"

definition calculate_answer_quality :: "string \<Rightarrow> string \<Rightarrow> string \<Rightarrow> real" where
  "calculate_answer_quality answer question context =
     (if answer = [] \<or> length (strip answer) < 3 then 0
      else
        let score0 = (0 :: real);
            score1 = (if length answer < 10 then score0 - 0.2 else score0);
            score2 = (if 0 < keyword_overlap question answer
                      then score1 + 0.1 * real (keyword_overlap question answer) else score1);
            score3 = (if list_ex (\<lambda>phrase. contains (lower answer) phrase) generic_phrases
                      then score2 - 0.3 else score2);
            score4 = (if endswith_char answer CHR ''.'' \<or> endswith_char answer CHR ''!''
                      then score3 + 0.1 else score3)
        in max 0 (min 1 score4))"

section \<open>The answer aggregator and the operation \<^verbatim>\<open>answer_question\<close>\<close>

text \<open>
  The configuration is what the lookups \<^verbatim>\<open>getattr(current_app.config, ...)\<close> deliver; outside
  an application context the source falls back to \<open>default_config\<close>.
\<close>

record config =
  qa_max_answer_length :: int
  qa_confidence_threshold :: real
  qa_chunk_size :: int
  qa_chunk_overlap :: int

definition default_config :: config where
  "default_config =
     \<lparr>qa_max_answer_length = 200, qa_confidence_threshold = 0.05,
      qa_chunk_size = 350, qa_chunk_overlap = 75\<rparr>"

text \<open>
  An entry of \<^verbatim>\<open>all_answers\<close>. The source stores the adjusted score under the key
  \<^verbatim>\<open>'confidence'\<close> and the answer under \<^verbatim>\<open>'answer'\<close>; the fields are named
  \<open>adjusted_confidence\<close> and \<open>candidate_answer\<close> here, apart from the fields of the result.
\<close>

record candidate =
  candidate_answer :: string
  adjusted_confidence :: real
  original_confidence :: real
  source_chunk :: string
  chunk_index :: nat

record qa_result =
  answer :: string
  confidence :: real
  source_text :: string

datatype error = ModelLoadError | PipelineError | MemoryError

text \<open>
  The oracle: the question-answering pipeline called with \<^verbatim>\<open>question\<close>, \<^verbatim>\<open>context\<close> and
  \<^verbatim>\<open>max_answer_len\<close>; it raises or returns the list of its spans, each with its score.
\<close>

type_synonym qa_pipeline = "string \<Rightarrow> string \<Rightarrow> int \<Rightarrow> error + (string \<times> real) list"

definition input_error_result :: qa_result where
  "input_error_result =
     \<lparr>answer = ''I couldn'' @ [CHR 0x27] @ ''t process your question. Please make sure both the transcript and question are valid.'',
      confidence = 0, source_text = []\<rparr>"

definition no_answer_result :: qa_result where
  "no_answer_result =
     \<lparr>answer = ''I couldn'' @ [CHR 0x27] @ ''t find an answer to your question in the transcript. Try asking about specific topics mentioned in the conversation.'',
      confidence = 0, source_text = []\<rparr>"

definition not_confident_result :: qa_result where
  "not_confident_result =
     \<lparr>answer = ''I found some potential answers but I'' @ [CHR 0x27] @ ''m not confident about them. Could you try rephrasing your question more specifically?'',
      confidence = 0, source_text = []\<rparr>"

definition failure_result :: qa_result where
  "failure_result =
     \<lparr>answer = ''Sorry, I encountered an error while processing your question. Please try again.'',
      confidence = 0, source_text = []\<rparr>"

text \<open>The loop over the results of one window (lines 257 to 272).\<close>

fun process_results :: "string \<Rightarrow> string \<Rightarrow> nat \<Rightarrow> (string \<times> real) list \<Rightarrow> candidate list" where
  "process_results question chunk i [] = []"
| "process_results question chunk i ((text, score) # results) =
     (if 3 \<le> length (strip text)
      then \<lparr>candidate_answer = strip text,
            adjusted_confidence = score + calculate_answer_quality (strip text) question chunk,
            original_confidence = score,
            source_chunk = chunk,
            chunk_index = i\<rparr> # process_results question chunk i results
      else process_results question chunk i results)"

text \<open>The loop over the windows (lines 243 to 280): a window whose call raises is skipped.\<close>

fun process_chunks :: "qa_pipeline \<Rightarrow> string \<Rightarrow> int \<Rightarrow> nat \<Rightarrow> string list \<Rightarrow> candidate list" where
  "process_chunks pipeline question max_answer_length i [] = []"
| "process_chunks pipeline question max_answer_length i (chunk # chunks) =
     (case pipeline question chunk max_answer_length of
        Inl e \<Rightarrow> process_chunks pipeline question max_answer_length (Suc i) chunks
      | Inr results \<Rightarrow>
          process_results question chunk i results
          @ process_chunks pipeline question max_answer_length (Suc i) chunks)"

text \<open>Lines 301 to 320: the final answer, the source excerpt and the capped confidence.\<close>

definition finalize :: "candidate \<Rightarrow> string \<Rightarrow> qa_result" where
  "finalize best_answer question =
     (let final_answer = post_process_answer (candidate_answer best_answer) question;
          position = find (source_chunk best_answer) final_answer;
          source_start = max 0 (position - 50);
          source_end = min (int (length (source_chunk best_answer)))
                           (position + int (length final_answer) + 50);
          excerpt = slice (source_chunk best_answer) source_start source_end
      in \<lparr>answer = final_answer,
          confidence = min (original_confidence best_answer) 0.95,
          source_text = strip excerpt\<rparr>)"

text \<open>
  Lines 282 to 320: \<^verbatim>\<open>list.sort\<close> with \<^verbatim>\<open>reverse=True\<close> is stable, as \<^const>\<open>sort_key\<close> on the
  negated key is.
\<close>

definition select_answer :: "real \<Rightarrow> string \<Rightarrow> candidate list \<Rightarrow> qa_result" where
  "select_answer confidence_threshold question all_answers =
     (if all_answers = [] then no_answer_result
      else
        let sorted_answers = sort_key (\<lambda>a. - adjusted_confidence a) all_answers;
            best_answer = hd sorted_answers
        in if original_confidence best_answer < confidence_threshold then not_confident_result
           else finalize best_answer question)"

text \<open>
  The body of the \<^verbatim>\<open>try\<close> block of \<^verbatim>\<open>answer_question\<close>. \<open>load\<close> is the outcome of
  \<^verbatim>\<open>_load_qa_model()\<close>, which raises or delivers the pipeline; an exception that leaves the
  body is \<open>Inl\<close>. Every pass of the segmenter's loop appends a window to \<^verbatim>\<open>chunks\<close> (line 146),
  so a run that does not leave the loop uses up the memory and ends in Python's
  \<^verbatim>\<open>MemoryError\<close>, raised inside the \<^verbatim>\<open>try\<close> block: where the segmenter has no result, the body
  has the exception \<open>MemoryError\<close>.
\<close>

definition answer_question_body ::
  "config \<Rightarrow> error + qa_pipeline \<Rightarrow> string \<Rightarrow> string \<Rightarrow> (error + qa_result) option" where
  "answer_question_body cfg load transcript question =
     (case load of
        Inl e \<Rightarrow> Some (Inl e)
      | Inr pipeline \<Rightarrow>
          let transcript' = preprocess_text transcript;
              question' = preprocess_question question
          in if transcript' = [] \<or> question' = [] then Some (Inr input_error_result)
             else
               (case smart_chunking transcript' question' (qa_chunk_size cfg) (qa_chunk_overlap cfg) of
                  None \<Rightarrow> Some (Inl MemoryError)
                | Some chunks \<Rightarrow>
                    Some (Inr (select_answer (qa_confidence_threshold cfg) question'
                                 (process_chunks pipeline question' (qa_max_answer_length cfg) 0 chunks)))))"

text \<open>
  The \<^verbatim>\<open>except Exception\<close> handler of line 322 around the body turns every exception into
  the failure result (\<^verbatim>\<open>MemoryError\<close> is an \<^verbatim>\<open>Exception\<close>). \<open>Some\<close> marks a call that returns.
\<close>

definition answer_question :: "config \<Rightarrow> error + qa_pipeline \<Rightarrow> string \<Rightarrow> string \<Rightarrow> qa_result option" where
  "answer_question cfg load transcript question =
     (case answer_question_body cfg load transcript question of
        None \<Rightarrow> None
      | Some (Inl e) \<Rightarrow> Some failure_result
      | Some (Inr result) \<Rightarrow> Some result)"

section \<open>A transcript on which the default windows do not advance\<close>

text \<open>
  \<open>transcript_of n m\<close> is a sentence of \<open>n + 1\<close> words of twenty letters, closed by a period,
  followed by \<open>m + 1\<close> words of one letter. \<open>long_transcript\<close> has 75 long and 276 short
  words, 351 words in all, one more than the default window of 350 words. The other
  definitions name its parts: the two sentences, the words of the first window, and the
  positions where a word can end.
\<close>

definition long_word :: string where
  "long_word = ''Abcdefghijklmnopqrst''"

definition transcript_of :: "nat \<Rightarrow> nat \<Rightarrow> string" where
  "transcript_of n m =
     long_word @ concat (replicate n (CHR '' '' # long_word)) @ ''.'' @ concat (replicate (Suc m) '' X'')"

definition long_transcript :: string where
  "long_transcript = transcript_of 74 275"

definition long_sentence :: "nat \<Rightarrow> string" where
  "long_sentence n = long_word @ concat (replicate n (CHR '' '' # long_word))"

definition short_sentence :: "nat \<Rightarrow> string" where
  "short_sentence m = ''X'' @ concat (replicate m '' X'')"

definition transcript_words :: "nat \<Rightarrow> nat \<Rightarrow> string list" where
  "transcript_words n m = replicate n long_word @ [long_word @ ''.''] @ replicate m ''X''"


section \<open>Termination of the repeated-word substitution\<close>

lemma try_reps_pos: "try_reps run u k = Some e \<Longrightarrow> u \<noteq> [] \<Longrightarrow> 0 < e"
  by (induction k) (auto simp: Let_def split: if_splits)

lemma try_group_pos: "try_group run g = Some (u, e) \<Longrightarrow> 0 < e"
proof (induction g)
  case 0
  then show ?case by simp
next
  case (Suc g)
  show ?case
  proof (cases "try_reps run (take (Suc g) run) (length run div Suc g)")
    case None
    with Suc show ?thesis by simp
  next
    case (Some e')
    with Suc.prems have e: "e' = e" by simp
    have "run \<noteq> []"
    proof
      assume "run = []"
      then have "length run div Suc g = 0" by simp
      with Some show False by simp
    qed
    then have "take (Suc g) run \<noteq> []" by (cases run) auto
    with Some e show ?thesis using try_reps_pos by blast
  qed
qed

lemma match_repeated_pos: "match_repeated s = Some (u, e) \<Longrightarrow> 0 < e"
  unfolding match_repeated_def Let_def by (rule try_group_pos)

termination sub_repeated
proof (relation "measure (\<lambda>(prev, s). length s)")
  fix prev :: bool and c :: char and cs :: string and x2 :: "string \<times> nat" and u :: string and e :: nat
  assume "match_repeated (c # cs) = Some x2" and "(u, e) = x2"
  then have "0 < e" using match_repeated_pos [of "c # cs" u e] by simp
  then show "((True, drop e (c # cs)), (prev, c # cs)) \<in> measure (\<lambda>(prev, s). length s)"
    by simp
qed auto

section \<open>Facts about the string primitives\<close>

lemma isupper_not_isspace: "isupper c \<Longrightarrow> \<not> isspace c"
  by (auto simp: isupper_def isspace_def Let_def)

lemma isupper_upper_char: "islower c \<Longrightarrow> isupper (upper_char c)"
  by (auto simp: isupper_def islower_def upper_char_def Let_def)

lemma strip_keeps_last:
  assumes "s \<noteq> []" and "\<not> isspace (last s)"
  shows "strip s \<noteq> [] \<and> last (strip s) = last s"
proof -
  obtain ys where s: "s = ys @ [last s]" using assms(1) by (metis append_butlast_last_id)
  define t where "t = dropWhile isspace s"
  have t_ne: "t \<noteq> []" using assms unfolding t_def
    by (metis dropWhile_eq_Nil_conv last_in_set)
  have last_t: "last t = last s" unfolding t_def
    by (metis assms(1) assms(2) dropWhile_eq_Nil_conv last_in_set takeWhile_dropWhile_id last_appendR)
  have "hd (rev t) = last t" using t_ne by (simp add: hd_rev)
  then have "dropWhile isspace (rev t) = rev t"
    using t_ne last_t assms(2) by (cases "rev t") auto
  then have "strip s = t" by (simp add: strip_def t_def)
  with t_ne last_t show ?thesis by simp
qed

lemma strip_keeps_hd:
  assumes "s \<noteq> []" and "\<not> isspace (hd s)"
  shows "hd (strip s) = hd s"
proof -
  have d: "dropWhile isspace s = s" using assms by (cases s) auto
  have "hd s \<in> set (rev s)" using assms(1) by simp
  then have ne: "dropWhile isspace (rev s) \<noteq> []"
    using assms(2) by (metis dropWhile_eq_Nil_conv)
  have "last (dropWhile isspace (rev s)) = last (rev s)"
    by (metis ne takeWhile_dropWhile_id last_appendR)
  then show ?thesis using ne assms(1) by (simp add: strip_def d hd_rev last_rev)
qed

lemma split_on_not_Nil: "split_on sep s \<noteq> []"
  by (induction s) (auto split: list.splits)

lemma hd_split_on:
  "c \<noteq> sep \<Longrightarrow> \<exists>p. hd (split_on sep (c # cs)) = c # p"
  by (auto split: list.splits)

lemma hd_join: "ps \<noteq> [] \<Longrightarrow> hd ps \<noteq> [] \<Longrightarrow> hd (join sep ps) = hd (hd ps)"
  by (induction sep ps rule: join.induct) auto

lemma join_not_Nil: "ps \<noteq> [] \<Longrightarrow> hd ps \<noteq> [] \<Longrightarrow> join sep ps \<noteq> []"
  by (induction sep ps rule: join.induct) auto

lemma hd_trimmed:
  assumes "c \<noteq> CHR ''.''" and "1 < length (split_on CHR ''.'' (c # cs))"
  shows "hd (join ''.'' (butlast (split_on CHR ''.'' (c # cs))) @ ''.'') = c"
proof -
  let ?ss = "split_on CHR ''.'' (c # cs)"
  obtain p where p: "hd ?ss = c # p" using hd_split_on [OF assms(1)] by blast
  have ne: "butlast ?ss \<noteq> []" using assms(2) by (cases ?ss) (auto split: if_splits)
  have "hd (butlast ?ss) = hd ?ss" using assms(2) by (cases ?ss) (auto split: if_splits)
  with p have h: "hd (butlast ?ss) = c # p" by simp
  then have "hd (join ''.'' (butlast ?ss)) = c" using hd_join [OF ne] by simp
  moreover have "join ''.'' (butlast ?ss) \<noteq> []" using join_not_Nil [OF ne] h by simp
  ultimately show ?thesis by simp
qed

lemma terminator_not_space: "is_terminator c \<Longrightarrow> \<not> isspace c"
  by (auto simp: is_terminator_def isspace_def)

lemma letter_not_period: "islower c \<or> isupper c \<Longrightarrow> c \<noteq> CHR ''.''"
  by (auto simp: islower_def isupper_def)

section \<open>The finalizer's output\<close>

text \<open>
  C8, as the claim states it: the claim promises an uppercase first character for every
  non-empty answer. The answer \<^verbatim>\<open>3 pm\<close> is finalized to \<^verbatim>\<open>3 pm.\<close>, whose first character is a
  digit: \<^verbatim>\<open>upper()\<close> leaves it as it is.
\<close>

theorem post_process_answer_digit_counterexample:
  "''3 pm'' \<noteq> [] \<and> \<not> isupper (hd (post_process_answer ''3 pm'' ''When?''))"
  by (simp add: post_process_answer_def strip_def isspace_def isupper_def endswith_char_def Let_def upper_def upper_char_def islower_def)

text \<open>
  C8, amended: for every non-empty answer the output of \<^verbatim>\<open>post_process_answer\<close> is non-empty
  and ends in \<^verbatim>\<open>.\<close>, \<^verbatim>\<open>!\<close> or \<^verbatim>\<open>?\<close>; when the first character of the answer is an ASCII
  letter (\<^verbatim>\<open>a\<close> to \<^verbatim>\<open>z\<close> or \<^verbatim>\<open>A\<close> to \<^verbatim>\<open>Z\<close>), the first character of the output is an
  uppercase ASCII letter. Nothing is said about an answer that starts with another
  character, a letter outside ASCII included.
\<close>

theorem post_process_answer_shape:
  assumes "ans \<noteq> []"
  shows "post_process_answer ans question \<noteq> []
       \<and> is_terminator (last (post_process_answer ans question))
       \<and> (if is_ascii_letter (hd ans)
          then isupper (hd (post_process_answer ans question)) else True)"
proof -
  obtain c cs where acs: "ans = c # cs" using assms by (cases ans) auto
  define sentences where "sentences = split_on CHR ''.'' ans"
  define answer1 where "answer1 = (if length sentences > 1 \<and> length (strip (last sentences)) < 10
                       then join ''.'' (butlast sentences) @ ''.'' else ans)"
  define answer2 where "answer2 = (if answer1 \<noteq> [] \<and> \<not> isupper (hd answer1)
                       then upper [hd answer1] @ tl answer1 else answer1)"
  define answer3 where "answer3 = (if answer2 \<noteq> [] \<and>
                          \<not> (endswith_char answer2 CHR ''.'' \<or> endswith_char answer2 CHR ''!''
                             \<or> endswith_char answer2 CHR ''?'')
                       then answer2 @ ''.'' else answer2)"
  have res: "post_process_answer ans question = strip answer3"
    unfolding answer3_def answer2_def answer1_def sentences_def post_process_answer_def Let_def
    by (rule if_not_P [OF assms])
  have a1_ne: "answer1 \<noteq> []" using assms by (simp add: answer1_def)
  have a1_hd: "hd answer1 = c" if "c \<noteq> CHR ''.''"
    using that hd_trimmed [of c cs] by (simp add: answer1_def sentences_def acs)
  have a2_ne: "answer2 \<noteq> []" using a1_ne by (simp add: answer2_def upper_def)
  have a2_hd: "isupper (hd answer2)" if "islower (hd answer1) \<or> isupper (hd answer1)"
    using that a1_ne by (auto simp: answer2_def upper_def isupper_upper_char)
  have a3_ne: "answer3 \<noteq> []" using a2_ne by (simp add: answer3_def)
  have a3_hd: "hd answer3 = hd answer2" using a2_ne by (simp add: answer3_def)
  have a3_last: "is_terminator (last answer3)"
    using a2_ne by (auto simp: answer3_def endswith_char_def is_terminator_def)
  have "strip answer3 \<noteq> [] \<and> last (strip answer3) = last answer3"
    using strip_keeps_last [OF a3_ne] a3_last terminator_not_space by blast
  moreover have "isupper (hd (strip answer3))" if "islower c \<or> isupper c"
  proof -
    have "hd answer1 = c" using a1_hd letter_not_period that by blast
    then have "isupper (hd answer3)" using a2_hd a3_hd that by simp
    then show ?thesis using strip_keeps_hd [OF a3_ne] isupper_not_isspace by metis
  qed
  ultimately show ?thesis
    using a3_last unfolding res is_ascii_letter_def by (auto simp: acs)
qed

theorem post_process_answer_shape_witness:
  "''john'' \<noteq> [] \<and> post_process_answer ''john'' ''Who?'' \<noteq> []
       \<and> is_terminator (last (post_process_answer ''john'' ''Who?''))
       \<and> isupper (hd (post_process_answer ''john'' ''Who?''))"
  using post_process_answer_shape [of "''john''" "''Who?''"]
  by (simp add: is_ascii_letter_def islower_def)

section \<open>The normalizer and repeated words\<close>

text \<open>
  C6, evaluated on the code: the claim says that \<^verbatim>\<open>the the\<close> is normalized to a single
  \<^verbatim>\<open>the\<close>. The pattern of line 70 has no whitespace between the group and its
  backreference, so it never matches two words separated by a space: both words stay (the
  first is capitalized by the later sentence step). What the pattern does collapse is a
  repetition inside one word, as in \<^verbatim>\<open>haha\<close>.
\<close>

theorem preprocess_text_keeps_repeated_word:
  "preprocess_text ''the the'' = ''The the'' \<and> preprocess_text ''haha'' = ''Ha''"
  by code_simp

section \<open>The segmenter's loop\<close>

text \<open>
  A pass of the loop that ends before the last word and whose next start is the start it
  began with is repeated forever: the loop never returns from such a state.
\<close>

lemma smart_chunking_loop_stuck_aux:
  assumes "smart_chunking_loop ws m ov chunks st = Some y"
  shows "\<not> (st < int (length ws) \<and> snd (chunk_step ws m st) < int (length ws)
            \<and> snd (chunk_step ws m st) - ov = st)"
  using assms
proof (induction ws m ov chunks st y rule: smart_chunking_loop.raw_induct [rotated 1, consumes 1])
  case (1 loop ws m ov chunks st y)
  show ?case
  proof
    assume stuck: "st < int (length ws) \<and> snd (chunk_step ws m st) < int (length ws)
            \<and> snd (chunk_step ws m st) - ov = st"
    with 1(2) have "loop ws m ov (chunks @ [fst (chunk_step ws m st)]) st = Some y"
      by (simp split: if_splits)
    from 1(1) [OF this] stuck show False by simp
  qed
qed

lemma smart_chunking_loop_stuck:
  assumes "st < int (length ws)" and "snd (chunk_step ws m st) < int (length ws)"
    and "snd (chunk_step ws m st) - ov = st"
  shows "smart_chunking_loop ws m ov chunks st = None"
proof (cases "smart_chunking_loop ws m ov chunks st")
  case None
  then show ?thesis .
next
  case (Some y)
  from smart_chunking_loop_stuck_aux [OF this] assms show ?thesis by simp
qed

section \<open>The long transcript in the normalizer and in the segmenter\<close>




lemma collect_replicate:
  assumes "\<And>s. g (u @ s) = x # g s"
  shows "g (concat (replicate n u) @ s) = replicate n x @ g s"
  using assms by (induction n) simp_all




lemma space_facts:
  "isspace CHR '' ''" "\<not> isspace CHR ''.''" "\<not> isspace CHR ''X''"
  "\<forall>c \<in> set long_word. \<not> isspace c"
  by (simp_all add: isspace_def long_word_def)







lemma sub_repeated_non_word:
  "\<not> is_word_char c \<Longrightarrow> sub_repeated b (c # s) = c # sub_repeated False s"
  by simp











lemma transcript_of_sentences:
  "transcript_of n m = long_sentence n @ CHR ''.'' # CHR '' '' # short_sentence m"
  by (simp add: transcript_of_def long_sentence_def short_sentence_def)

lemma set_long_sentence: "set (long_sentence n) \<subseteq> insert CHR '' '' (set long_word)"
  by (auto simp: long_sentence_def)








lemma split_acc_word:
  "\<forall>c \<in> set w. \<not> isspace c \<Longrightarrow> split_acc cur (w @ s) = split_acc (cur @ w) s"
  by (induction w arbitrary: cur) simp_all

lemma split_acc_space:
  "cur \<noteq> [] \<Longrightarrow> \<forall>c \<in> set w. \<not> isspace c \<Longrightarrow>
   split_acc cur ((CHR '' '' # w) @ s) = cur # split_acc w s"
  using split_acc_word [of w "[]" s] by (simp add: space_facts)

lemma split_acc_long_sentence:
  "split_acc [] (long_sentence n @ s) = replicate n long_word @ split_acc long_word s"
proof -
  have u: "\<And>s. split_acc long_word ((CHR '' '' # long_word) @ s) = long_word # split_acc long_word s"
    by (rule split_acc_space) (simp_all add: space_facts, simp add: long_word_def)
  have "split_acc [] (long_sentence n @ s)
        = split_acc long_word (concat (replicate n (CHR '' '' # long_word)) @ s)"
    using split_acc_word [of long_word "[]"] by (simp add: long_sentence_def space_facts)
  also have "\<dots> = replicate n long_word @ split_acc long_word s"
    by (rule collect_replicate [where g = "split_acc long_word"]) (rule u)
  finally show ?thesis .
qed

lemma split_acc_short_words:
  "split_acc ''X'' (concat (replicate m '' X'') @ s) = replicate m ''X'' @ split_acc ''X'' s"
proof (rule collect_replicate [where g = "split_acc ''X''"])
  fix s
  show "split_acc ''X'' ('' X'' @ s) = ''X'' # split_acc ''X'' s"
    by (simp add: space_facts)
qed

lemma split_ws_long_sentence_period:
  "split_ws (long_sentence n @ ''.'') = replicate n long_word @ [long_word @ ''.'']"
  unfolding split_ws_def split_acc_long_sentence by (simp add: space_facts long_word_def)

lemma split_ws_transcript:
  "split_ws (transcript_of n m) = transcript_words n m @ [''X'']"
proof -
  have "split_acc long_word (CHR ''.'' # CHR '' '' # short_sentence m)
        = (long_word @ ''.'') # split_acc ''X'' (concat (replicate m '' X'') @ [])"
    by (simp add: space_facts short_sentence_def long_word_def)
  also have "\<dots> = (long_word @ ''.'') # replicate m ''X'' @ [''X'']"
    unfolding split_acc_short_words by simp
  finally show ?thesis
    unfolding split_ws_def transcript_of_sentences split_acc_long_sentence
    by (simp add: transcript_words_def)
qed

lemma join_Cons: "join sep (x # xs) = x @ concat (map ((@) sep) xs)"
  by (induction xs arbitrary: x) simp_all

lemma concat_replicate_commute: "concat (replicate k u) @ u = u @ concat (replicate k u)"
  by (induction k) simp_all

lemma join_transcript_words:
  "join '' '' (transcript_words n m) = long_sentence n @ CHR ''.'' # concat (replicate m '' X'')"
proof (cases n)
  case 0
  then show ?thesis by (simp add: transcript_words_def long_sentence_def join_Cons)
next
  case (Suc k)
  have "join '' '' (transcript_words n m)
        = long_word @ (concat (replicate k (CHR '' '' # long_word)) @ CHR '' '' # long_word)
            @ CHR ''.'' # concat (replicate m '' X'')"
    by (simp add: Suc transcript_words_def join_Cons)
  also have "concat (replicate k (CHR '' '' # long_word)) @ CHR '' '' # long_word
        = concat (replicate (Suc k) (CHR '' '' # long_word))"
    using concat_replicate_commute [of k "CHR '' '' # long_word"] by simp
  finally show ?thesis by (simp add: Suc long_sentence_def)
qed

lemma length_long_sentence: "length (long_sentence n) = 20 + 21 * n"
  by (simp add: long_sentence_def long_word_def length_concat sum_list_replicate)

lemma rfind_from_absent: "c \<notin> set s \<Longrightarrow> rfind_from i best c s = best"
  by (induction s arbitrary: i best) auto

lemma rfind_from_last:
  "c \<notin> set b \<Longrightarrow> rfind_from i best c (a @ c # b) = int (i + length a)"
  by (induction a arbitrary: i best) (simp_all add: rfind_from_absent)

lemma set_short_words: "set (concat (replicate m '' X'')) \<subseteq> {CHR '' '', CHR ''X''}"
  by (induction m) auto

lemma rfind_chunk:
  "rfind (long_sentence n @ CHR ''.'' # concat (replicate m '' X'')) CHR ''.'' = int (20 + 21 * n)"
  "rfind (long_sentence n @ CHR ''.'' # concat (replicate m '' X'')) CHR ''!'' = - 1"
  "rfind (long_sentence n @ CHR ''.'' # concat (replicate m '' X'')) CHR ''?'' = - 1"
proof -
  have "CHR ''.'' \<notin> set (concat (replicate m '' X''))" using set_short_words [of m] by auto
  then show "rfind (long_sentence n @ CHR ''.'' # concat (replicate m '' X'')) CHR ''.'' = int (20 + 21 * n)"
    unfolding rfind_def by (simp add: rfind_from_last length_long_sentence)
  have s: "set (long_sentence n @ CHR ''.'' # concat (replicate m '' X''))
           \<subseteq> insert CHR '' '' (set long_word) \<union> {CHR '' '', CHR ''X'', CHR ''.''}"
    using set_long_sentence [of n] set_short_words [of m] by auto
  have "CHR ''!'' \<notin> insert CHR '' '' (set long_word) \<union> {CHR '' '', CHR ''X'', CHR ''.''}"
    "CHR ''?'' \<notin> insert CHR '' '' (set long_word) \<union> {CHR '' '', CHR ''X'', CHR ''.''}"
    by (simp_all add: long_word_def)
  with s have ex: "CHR ''!'' \<notin> set (long_sentence n @ CHR ''.'' # concat (replicate m '' X''))"
    and qu: "CHR ''?'' \<notin> set (long_sentence n @ CHR ''.'' # concat (replicate m '' X''))"
    by blast+
  show "rfind (long_sentence n @ CHR ''.'' # concat (replicate m '' X'')) CHR ''!'' = - 1"
    unfolding rfind_def by (rule rfind_from_absent [OF ex])
  show "rfind (long_sentence n @ CHR ''.'' # concat (replicate m '' X'')) CHR ''?'' = - 1"
    unfolding rfind_def by (rule rfind_from_absent [OF qu])
qed


lemma exceeds_long_chunk: "exceeds_070_of 1574 2125"
  by code_simp

lemma chunk_step_trimmed:
  assumes "min (start + max_length) (int (length words)) = e"
    and "e < int (length words)"
    and "join '' '' (slice words start e) = c"
    and "max (max (rfind c CHR ''.'') (rfind c CHR ''!'')) (rfind c CHR ''?'') = se"
    and "exceeds_070_of se (length c)"
    and "slice c 0 (se + 1) = c'"
    and "length (split_ws c') = k"
  shows "chunk_step words max_length start = (c', start + int k)"
  using assms unfolding chunk_step_def Let_def by simp

lemma length_transcript_words: "length (transcript_words n m) = n + m + 1"
  by (simp add: transcript_words_def)

lemma slice_transcript_words:
  "slice (transcript_words n m @ [x]) 0 (int (n + m + 1)) = transcript_words n m"
  by (simp add: slice_def slice_index_def Let_def length_transcript_words)

lemma length_chunk:
  "length (long_sentence n @ CHR ''.'' # concat (replicate m '' X'')) = 21 + 21 * n + 2 * m"
  by (simp add: length_long_sentence length_concat sum_list_replicate)

lemma slice_chunk:
  "slice (long_sentence n @ CHR ''.'' # rest) 0 (int (21 + 21 * n)) = long_sentence n @ ''.''"
proof -
  have l: "length (long_sentence n) = 20 + 21 * n" by (rule length_long_sentence)
  have "take (21 + 21 * n) (long_sentence n @ CHR ''.'' # rest) = long_sentence n @ ''.''"
    by (simp add: l)
  moreover have "slice_index (length (long_sentence n @ CHR ''.'' # rest)) (int (21 + 21 * n))
                 = 21 + 21 * n"
    unfolding slice_index_def by (simp add: l)
  moreover have "slice_index (length (long_sentence n @ CHR ''.'' # rest)) 0 = 0"
    unfolding slice_index_def by simp
  ultimately show ?thesis unfolding slice_def Let_def by (simp only: drop_0 diff_zero)
qed

lemma chunk_step_long_transcript:
  "chunk_step (transcript_words 74 275 @ [''X'']) 350 0 = (long_sentence 74 @ ''.'', 0 + int 75)"
proof (rule chunk_step_trimmed)
  show "min (0 + 350) (int (length (transcript_words 74 275 @ [''X'']))) = 350"
    by (simp add: length_transcript_words)
  show "350 < int (length (transcript_words 74 275 @ [''X'']))"
    by (simp add: length_transcript_words)
  have "slice (transcript_words 74 275 @ [''X'']) 0 350 = transcript_words 74 275"
    using slice_transcript_words [of 74 275 "''X''"] by simp
  then show "join '' '' (slice (transcript_words 74 275 @ [''X'']) 0 350)
        = long_sentence 74 @ CHR ''.'' # concat (replicate 275 '' X'')"
    by (simp only: join_transcript_words)
  show "max (max (rfind (long_sentence 74 @ CHR ''.'' # concat (replicate 275 '' X'')) CHR ''.'')
               (rfind (long_sentence 74 @ CHR ''.'' # concat (replicate 275 '' X'')) CHR ''!''))
          (rfind (long_sentence 74 @ CHR ''.'' # concat (replicate 275 '' X'')) CHR ''?'') = 1574"
    by (simp only: rfind_chunk; simp)
  show "exceeds_070_of 1574 (length (long_sentence 74 @ CHR ''.'' # concat (replicate 275 '' X'')))"
    by (simp only: length_chunk) (simp add: exceeds_long_chunk)
  show "slice (long_sentence 74 @ CHR ''.'' # concat (replicate 275 '' X'')) 0 (1574 + 1)
        = long_sentence 74 @ ''.''"
    using slice_chunk [of 74 "concat (replicate 275 '' X'')"] by (simp del: replicate.simps)
  show "length (split_ws (long_sentence 74 @ ''.'')) = 75"
    by (simp only: split_ws_long_sentence_period) simp
qed

lemma smart_chunking_long_transcript:
  "smart_chunking long_transcript question 350 75 = None"
proof -
  let ?ws = "transcript_words 74 275 @ [''X'']"
  have w: "split_ws long_transcript = ?ws"
    unfolding long_transcript_def by (rule split_ws_transcript)
  have "smart_chunking_loop ?ws 350 75 [] 0 = None"
    by (rule smart_chunking_loop_stuck)
       (simp_all add: chunk_step_long_transcript length_transcript_words)
  then show ?thesis
    unfolding smart_chunking_def Let_def w by (simp add: length_transcript_words)
qed

text \<open>
  C1, evaluated on the code: the claim says that the segmenter returns for every
  \<open>maxWords \<ge> 1\<close> and \<open>overlapWords \<ge> 0\<close>, the advance being clamped to one word. Line 151
  is \<^verbatim>\<open>start = end - overlap\<close> with no clamp. On the two words \<^verbatim>\<open>a b\<close> with \<open>max_length = 1\<close>
  and \<open>overlap = 1\<close> the first pass takes the window \<^verbatim>\<open>a\<close>, sets \<open>end = 1\<close> and goes back to
  \<open>start = 0\<close>: the call never returns. The same happens with an overlap below the window
  size when the sentence trim of lines 135 to 144 cuts the first window back to no more
  words than the overlap: with \<open>max_length = 5\<close> and \<open>overlap = 1\<close>, and with the defaults
  \<open>max_length = 350\<close> and \<open>overlap = 75\<close> on \<open>long_transcript\<close>.
\<close>

theorem smart_chunking_never_returns:
  "smart_chunking ''a b'' ''Which letters?'' 1 1 = None
   \<and> smart_chunking ''Pneumonoultramicroscopicsilicovolcanoconiosis. It is a long word indeed''
         ''What is it?'' 5 1 = None
   \<and> smart_chunking long_transcript ''What is said?'' 350 75 = None"
proof -
  have w: "split_ws ''a b'' = [''a'', ''b'']" by code_simp
  have s: "chunk_step [''a'', ''b''] 1 0 = (''a'', 1)" by code_simp
  have "smart_chunking_loop [''a'', ''b''] 1 1 [] 0 = None"
    by (rule smart_chunking_loop_stuck) (simp_all add: s)
  then have first: "smart_chunking ''a b'' ''Which letters?'' 1 1 = None"
    by (simp add: smart_chunking_def w)
  let ?t = "''Pneumonoultramicroscopicsilicovolcanoconiosis. It is a long word indeed''"
  let ?ws = "[''Pneumonoultramicroscopicsilicovolcanoconiosis.'', ''It'', ''is'', ''a'', ''long'',
              ''word'', ''indeed'']"
  have w': "split_ws ?t = ?ws" by code_simp
  have s': "chunk_step ?ws 5 0 = (''Pneumonoultramicroscopicsilicovolcanoconiosis.'', 1)"
    by code_simp
  have "smart_chunking_loop ?ws 5 1 [] 0 = None"
    by (rule smart_chunking_loop_stuck) (simp_all add: s')
  then have "smart_chunking ?t ''What is it?'' 5 1 = None"
    by (simp add: smart_chunking_def w')
  with first smart_chunking_long_transcript show ?thesis by simp
qed

text \<open>
  C2, evaluated on the code: the claim says that the windows, overlaps removed, give back
  every word of a text longer than \<open>maxWords\<close>. Seven words with \<open>max_length = 5\<close> and
  \<open>overlap = 2\<close>: the first window is cut back to its first sentence, one word, so the next
  start is \<open>1 - 2 = -1\<close>. The slice \<^verbatim>\<open>words[-1:4]\<close> is empty, the second window is the empty
  string, and the third starts at \<open>4 - 2 = 2\<close>. The word \<^verbatim>\<open>b\<close> at index 1 is in no window.
\<close>

theorem smart_chunking_drops_word:
  "smart_chunking ''aaaaaaaaaaaaaaaaaaaaaaaaaaaaaa. b c d e f g'' ''Which letters?'' 5 2
     = Some [''aaaaaaaaaaaaaaaaaaaaaaaaaaaaaa.'', [], ''c d e f g'']
   \<and> length (split_ws ''aaaaaaaaaaaaaaaaaaaaaaaaaaaaaa. b c d e f g'') = 7
   \<and> ''b'' \<in> set (split_ws ''aaaaaaaaaaaaaaaaaaaaaaaaaaaaaa. b c d e f g'')
   \<and> ''b'' \<notin> set (concat (map split_ws [''aaaaaaaaaaaaaaaaaaaaaaaaaaaaaa.'', [], ''c d e f g'']))"
  by code_simp

section \<open>The quality scorer's range\<close>

text \<open>
  C5: for every answer, question and window the delta that \<^verbatim>\<open>calculate_answer_quality\<close>
  returns lies in the closed interval from 0 to 1. The clamp is on the delta: the adjusted
  score that the aggregator records for a span is the raw score plus the delta, with no
  clamp of its own.
\<close>

theorem calculate_answer_quality_range:
  "0 \<le> calculate_answer_quality ans question context
   \<and> calculate_answer_quality ans question context \<le> 1
   \<and> map adjusted_confidence (process_results question context i [(ans, score)])
       = (if 3 \<le> length (strip ans)
          then [score + calculate_answer_quality (strip ans) question context] else [])"
  by (simp add: calculate_answer_quality_def Let_def)

text \<open>An instance: the raw score \<open>0.9\<close> and the delta \<open>0.3\<close> give the adjusted score \<open>1.2\<close>, above 1.\<close>

theorem calculate_answer_quality_range_witness:
  "0 \<le> calculate_answer_quality ''John said hello.'' ''Who said hello?'' ''John said hello.''
   \<and> calculate_answer_quality ''John said hello.'' ''Who said hello?'' ''John said hello.'' \<le> 1
   \<and> map adjusted_confidence
         (process_results ''Who said hello?'' ''John said hello.'' 0 [(''John said hello.'', 9 / 10)])
       = [12 / 10]"
proof -
  have q: "calculate_answer_quality ''John said hello.'' ''Who said hello?'' ''John said hello.'' = 3 / 10"
    by code_simp
  have s: "strip ''John said hello.'' = ''John said hello.''" by code_simp
  show ?thesis
    using calculate_answer_quality_range [of "''John said hello.''" "''Who said hello?''" "''John said hello.''" 0 "9 / 10"]
    by (simp add: s q)
qed

section \<open>The scenario of the hedged answer\<close>

lemma keyword_overlap_single:
  "length (remdups (filter (\<lambda>w. w \<in> set [x]) qs)) \<le> 1"
proof -
  have "set (filter (\<lambda>w. w \<in> set [x]) qs) \<subseteq> {x}" by auto
  then have "card (set (filter (\<lambda>w. w \<in> set [x]) qs)) \<le> card {x}"
    by (intro card_mono) auto
  then show ?thesis by (simp add: length_remdups_card_conv)
qed

lemma maybe_quality: "calculate_answer_quality ''maybe'' question context = 0"
proof -
  have aw: "findall_words (lower ''maybe'') = [''maybe'']" by code_simp
  have k: "keyword_overlap question ''maybe'' \<le> 1"
    unfolding keyword_overlap_def Let_def aw by (rule keyword_overlap_single)
  have st: "strip ''maybe'' = ''maybe''" by code_simp
  have g: "list_ex (\<lambda>phrase. contains (lower ''maybe'') phrase) generic_phrases" by code_simp
  have e: "\<not> endswith_char ''maybe'' CHR ''.''" "\<not> endswith_char ''maybe'' CHR ''!''"
    by (simp_all add: endswith_char_def)
  have "real (keyword_overlap question ''maybe'') \<le> 1" using k by simp
  then show ?thesis
    unfolding calculate_answer_quality_def Let_def using g e
    by (simp add: st)
qed

lemma strip_maybe: "strip ''maybe'' = ''maybe''" by code_simp

text \<open>
  C4, as the claim states it: the claim gives the answer \<^verbatim>\<open>maybe\<close> the delta \<open>-0.3\<close> and the
  adjusted score \<open>0.5\<close>. The scorer subtracts \<open>0.2\<close> for the short answer and \<open>0.3\<close> for the
  hedge phrase, and the clamp of line 182 raises the negative sum to 0.
\<close>

theorem maybe_scenario_counterexample:
  "calculate_answer_quality ''maybe'' ''Who said hello?''
      ''John said hello to Mary at 3 PM yesterday in the office'' \<noteq> - (3 / 10)
   \<and> map adjusted_confidence
        (process_results ''Who said hello?''
           ''John said hello to Mary at 3 PM yesterday in the office'' 0 [(''maybe'', 8 / 10)])
      \<noteq> [5 / 10]"
  by (simp add: maybe_quality strip_maybe)

text \<open>
  C4, amended: for the span \<^verbatim>\<open>maybe\<close> with score \<open>0.8\<close> the delta is 0 for every question and
  window, the adjusted score is \<open>0.8\<close>, and when the oracle returns only this span (threshold
  \<open>0.05\<close>) the operation returns the answer \<^verbatim>\<open>Maybe.\<close> with confidence \<open>0.8\<close>.
\<close>

theorem maybe_scenario:
  "calculate_answer_quality ''maybe'' question context = 0
   \<and> map adjusted_confidence (process_results question context i [(''maybe'', 8 / 10)]) = [8 / 10]
   \<and> answer_question default_config (Inr (\<lambda>question context max_answer_len. Inr [(''maybe'', 8 / 10)]))
        ''John said hello to Mary at 3 PM yesterday in the office.'' ''Who said hello?''
      = Some \<lparr>answer = ''Maybe.'', confidence = 8 / 10,
              source_text = ''John said hello to Mary at 3 PM yesterday in the office''\<rparr>"
proof -
  have "answer_question default_config (Inr (\<lambda>question context max_answer_len. Inr [(''maybe'', 8 / 10)]))
        ''John said hello to Mary at 3 PM yesterday in the office.'' ''Who said hello?''
      = Some \<lparr>answer = ''Maybe.'', confidence = 8 / 10,
              source_text = ''John said hello to Mary at 3 PM yesterday in the office''\<rparr>"
    by code_simp
  then show ?thesis by (simp add: maybe_quality strip_maybe)
qed

section \<open>The source excerpt\<close>

text \<open>
  C7, evaluated on the code: the claim says that the excerpt is empty when the final answer
  is not a substring of its window. There \<^verbatim>\<open>find\<close> returns \<open>-1\<close>, which lines 305 to 308 use as
  a position: the excerpt is the window from 0 to \<open>len(final_answer) + 49\<close>. The oracle's span
  \<^verbatim>\<open>John\<close> is finalized to \<^verbatim>\<open>John.\<close>, not in the window, and the excerpt is the first 54
  characters of the window.
\<close>

theorem excerpt_when_answer_not_found:
  "find ''John said hello to Mary at 3 PM yesterday in the office'' ''John.'' = - 1
   \<and> answer_question default_config (Inr (\<lambda>question context max_answer_len. Inr [(''John'', 9 / 10)]))
        ''John said hello to Mary at 3 PM yesterday in the office.'' ''Who said hello?''
      = Some \<lparr>answer = ''John.'', confidence = 9 / 10,
              source_text = ''John said hello to Mary at 3 PM yesterday in the offic''\<rparr>"
  by code_simp

section \<open>The confidence gate\<close>

lemma hd_sort_key_in_set: "xs \<noteq> [] \<Longrightarrow> hd (sort_key f xs) \<in> set xs"
proof -
  assume "xs \<noteq> []"
  then have "sort_key f xs \<noteq> []" by (metis length_0_conv length_sort)
  then have "hd (sort_key f xs) \<in> set (sort_key f xs)" by (rule hd_in_set)
  then show ?thesis by simp
qed

lemma process_results_original:
  "c \<in> set (process_results question chunk i results)
   \<Longrightarrow> \<exists>text. (text, original_confidence c) \<in> set results"
  by (induction question chunk i results rule: process_results.induct)
     (auto split: if_splits)

lemma process_chunks_original:
  "c \<in> set (process_chunks pipeline question m i chunks)
   \<Longrightarrow> \<exists>chunk \<in> set chunks. \<exists>results text.
         pipeline question chunk m = Inr results \<and> (text, original_confidence c) \<in> set results"
proof (induction chunks arbitrary: i)
  case Nil
  then show ?case by simp
next
  case (Cons chunk chunks)
  show ?case
  proof (cases "pipeline question chunk m")
    case (Inl e)
    with Cons show ?thesis by auto
  next
    case (Inr results)
    with Cons.prems have "c \<in> set (process_results question chunk i results)
        \<or> c \<in> set (process_chunks pipeline question m (Suc i) chunks)" by simp
    then show ?thesis
    proof
      assume "c \<in> set (process_results question chunk i results)"
      from process_results_original [OF this] Inr show ?thesis by auto
    next
      assume "c \<in> set (process_chunks pipeline question m (Suc i) chunks)"
      from Cons.IH [OF this] show ?thesis by auto
    qed
  qed
qed

lemma select_answer_all_below:
  assumes "\<forall>a \<in> set all_answers. original_confidence a < thr"
  shows "select_answer thr question all_answers
         = (if all_answers = [] then no_answer_result else not_confident_result)"
proof (cases "all_answers = []")
  case True
  then show ?thesis by (simp add: select_answer_def)
next
  case False
  from hd_sort_key_in_set [OF this] assms
  have "original_confidence (hd (sort_key (\<lambda>a. - adjusted_confidence a) all_answers)) < thr"
    by blast
  with False show ?thesis by (simp add: select_answer_def Let_def)
qed

text \<open>
  C3: when the candidate that ranks first by adjusted score has a raw score below the
  threshold, the aggregator returns the fixed not-confident result, with confidence 0 and an
  empty excerpt. The gate reads the raw score only: when every span that the oracle returns
  has a raw score below the threshold, the aggregator returns the not-confident result or,
  when no span is long enough to be a candidate, the no-answer result, and never an answer.
\<close>

theorem confidence_gate:
  "(all_answers \<noteq> []
      \<and> original_confidence (hd (sort_key (\<lambda>a. - adjusted_confidence a) all_answers)) < thr
     \<longrightarrow> select_answer thr question all_answers = not_confident_result)
   \<and> ((\<forall>chunk \<in> set chunks. \<forall>results. pipeline question chunk m = Inr results
          \<longrightarrow> (\<forall>(text, score) \<in> set results. score < thr))
     \<longrightarrow> select_answer thr question (process_chunks pipeline question m 0 chunks)
           \<in> {no_answer_result, not_confident_result})
   \<and> confidence not_confident_result = 0 \<and> source_text not_confident_result = []
   \<and> confidence no_answer_result = 0 \<and> source_text no_answer_result = []"
proof (intro conjI impI)
  assume "all_answers \<noteq> []
      \<and> original_confidence (hd (sort_key (\<lambda>a. - adjusted_confidence a) all_answers)) < thr"
  then show "select_answer thr question all_answers = not_confident_result"
    by (simp add: select_answer_def Let_def)
next
  assume below: "\<forall>chunk \<in> set chunks. \<forall>results. pipeline question chunk m = Inr results
          \<longrightarrow> (\<forall>(text, score) \<in> set results. score < thr)"
  have "\<forall>a \<in> set (process_chunks pipeline question m 0 chunks). original_confidence a < thr"
  proof
    fix a assume "a \<in> set (process_chunks pipeline question m 0 chunks)"
    from process_chunks_original [OF this] below show "original_confidence a < thr" by fastforce
  qed
  from select_answer_all_below [OF this]
  show "select_answer thr question (process_chunks pipeline question m 0 chunks)
           \<in> {no_answer_result, not_confident_result}" by simp
qed (simp_all add: not_confident_result_def no_answer_result_def)

text \<open>
  An instance with the threshold \<open>0.05\<close>: the candidate that ranks first has the adjusted score
  \<open>0.34\<close>, above the threshold, and the raw score \<open>0.04\<close>, below it.
\<close>

theorem confidence_gate_witness:
  "select_answer (5 / 100) ''Who said hello?''
      [\<lparr>candidate_answer = ''Mary'', adjusted_confidence = 3 / 100, original_confidence = 3 / 100,
        source_chunk = ''John said hello to Mary'', chunk_index = 0\<rparr>,
       \<lparr>candidate_answer = ''John said hello'', adjusted_confidence = 34 / 100, original_confidence = 4 / 100,
        source_chunk = ''John said hello to Mary'', chunk_index = 0\<rparr>]
     = not_confident_result
   \<and> select_answer (5 / 100) ''Who said hello?''
        (process_chunks (\<lambda>question context max_answer_len. Inr [(''John said hello'', 4 / 100)])
           ''Who said hello?'' 200 0 [''John said hello to Mary''])
       \<in> {no_answer_result, not_confident_result}"
  using confidence_gate [of
      "[\<lparr>candidate_answer = ''Mary'', adjusted_confidence = 3 / 100, original_confidence = 3 / 100,
        source_chunk = ''John said hello to Mary'', chunk_index = 0\<rparr>,
       \<lparr>candidate_answer = ''John said hello'', adjusted_confidence = 34 / 100, original_confidence = 4 / 100,
        source_chunk = ''John said hello to Mary'', chunk_index = 0\<rparr>]"
      "5 / 100" "''Who said hello?''" "[''John said hello to Mary'']"
      "\<lambda>question context max_answer_len. Inr [(''John said hello'', 4 / 100)]" 200]
  by simp

section \<open>Invalid input\<close>

lemma upper_char_not_isspace: "\<not> isspace c \<Longrightarrow> \<not> isspace (upper_char c)"
  by (auto simp: upper_char_def islower_def isspace_def Let_def)

lemma strip_hd_not_isspace:
  assumes "strip s \<noteq> []"
  shows "\<not> isspace (hd (strip s))"
proof -
  define y where "y = dropWhile isspace s"
  have s: "strip s = rev (dropWhile isspace (rev y))" by (simp add: strip_def y_def)
  with assms have ne: "dropWhile isspace (rev y) \<noteq> []" by simp
  then have y_ne: "y \<noteq> []" by auto
  have "last (dropWhile isspace (rev y)) = last (rev y)"
    by (metis ne takeWhile_dropWhile_id last_appendR)
  then have "hd (strip s) = hd y" using ne y_ne by (simp add: s hd_rev last_rev)
  moreover have "\<not> isspace (hd y)" using y_ne unfolding y_def by (rule hd_dropWhile)
  ultimately show ?thesis by simp
qed

lemma capitalize_sentence_hd:
  "s \<noteq> [] \<Longrightarrow> capitalize_sentence s \<noteq> [] \<and> hd (capitalize_sentence s) = upper_char (hd s)"
  by (cases s) (auto simp: capitalize_sentence_def upper_def)

lemma preprocess_text_blank:
  assumes "list_all isspace (preprocess_text text)"
  shows "preprocess_text text = []"
proof (rule ccontr)
  assume ne: "preprocess_text text \<noteq> []"
  then have t: "text \<noteq> []" by (auto simp: preprocess_text_def)
  define kept where "kept = filter (\<lambda>sentence. sentence \<noteq> [])
      (map strip (split_on CHR ''.'' (filter allowed_char
         (sub_repeated False (sub_whitespace False (strip text))))))"
  have res: "preprocess_text text = join ''. '' (map capitalize_sentence kept)"
    using t by (simp add: preprocess_text_def Let_def kept_def)
  with ne have k: "kept \<noteq> []" by auto
  then have "hd kept \<in> set kept" by simp
  then obtain x where x: "hd kept = strip x" and x_ne: "strip x \<noteq> []"
    unfolding kept_def by auto
  have c: "capitalize_sentence (hd kept) \<noteq> []"
      "hd (capitalize_sentence (hd kept)) = upper_char (hd (hd kept))"
    using capitalize_sentence_hd [of "hd kept"] x x_ne by simp_all
  have m: "map capitalize_sentence kept \<noteq> []"
      "hd (map capitalize_sentence kept) = capitalize_sentence (hd kept)"
    using k by (simp_all add: hd_map)
  have "hd (preprocess_text text) = upper_char (hd (strip x))"
    using hd_join [OF m(1), of "''. ''"] c m(2) x by (simp add: res)
  then have "\<not> isspace (hd (preprocess_text text))"
    using strip_hd_not_isspace [OF x_ne] upper_char_not_isspace by simp
  moreover have "isspace (hd (preprocess_text text))"
    using assms ne by (cases "preprocess_text text") auto
  ultimately show False by simp
qed

lemma preprocess_question_empty: "(preprocess_question question = []) = (question = [])"
  by (auto simp: preprocess_question_def Let_def upper_def endswith_char_def)

lemma preprocess_question_blank:
  assumes "list_all isspace (preprocess_question question)"
  shows "preprocess_question question = []"
proof (rule ccontr)
  assume ne: "preprocess_question question \<noteq> []"
  then have q: "question \<noteq> []" by (simp add: preprocess_question_empty)
  define q2 where "q2 = (if \<not> endswith_char (strip question) CHR ''?'' then strip question @ ''?''
                         else strip question)"
  have q2_ne: "q2 \<noteq> []" and q2_last: "last q2 = CHR ''?''"
    by (auto simp: q2_def endswith_char_def)
  have res: "preprocess_question question = upper_char (hd q2) # tl q2"
    using q q2_ne by (simp add: preprocess_question_def Let_def q2_def [symmetric] upper_def)
  have "last (upper_char (hd q2) # tl q2) = CHR ''?''"
  proof (cases "tl q2")
    case Nil
    then have "q2 = [CHR ''?'']" using q2_ne q2_last by (cases q2) auto
    then show ?thesis by (simp add: upper_char_def islower_def)
  next
    case (Cons a as)
    then have "last (tl q2) = last q2" using q2_ne by (cases q2) auto
    with Cons q2_last show ?thesis by simp
  qed
  then have "CHR ''?'' \<in> set (preprocess_question question)"
    unfolding res by (metis last_in_set list.distinct(1))
  with assms have "isspace CHR ''?''" by (simp add: list_all_iff)
  then show False by (simp add: isspace_def)
qed

text \<open>
  C9, as the claim states it: the claim promises the input-error result for every request
  with an empty transcript. Line 212 loads the model before lines 215 to 223 look at the
  input, so when \<^verbatim>\<open>_load_qa_model()\<close> raises, the handler of line 322 returns the failure
  result, whose message is another one.
\<close>

theorem input_error_load_counterexample:
  "answer_question default_config (Inl ModelLoadError) [] ''Who said hello?'' = Some failure_result
   \<and> failure_result \<noteq> input_error_result"
  by (simp add: answer_question_def answer_question_body_def failure_result_def input_error_result_def)

text \<open>
  C9, amended: when the model has loaded, every request whose normalized transcript or
  normalized question is empty or blank gets the fixed input-error result, with confidence 0
  and an empty excerpt, whatever the oracle would do (it is not called). When the model
  fails to load, the request gets the failure result, with confidence 0.
\<close>

theorem input_error_returned:
  assumes "list_all isspace (preprocess_text transcript)
           \<or> list_all isspace (preprocess_question question)"
  shows "answer_question cfg (Inr pipeline) transcript question = Some input_error_result
       \<and> confidence input_error_result = 0 \<and> source_text input_error_result = []
       \<and> answer_question cfg (Inl err) transcript question = Some failure_result
       \<and> confidence failure_result = 0"
proof -
  from assms have "preprocess_text transcript = [] \<or> preprocess_question question = []"
    using preprocess_text_blank preprocess_question_blank by blast
  then show ?thesis
    by (auto simp: answer_question_def answer_question_body_def Let_def input_error_result_def
          failure_result_def)
qed

text \<open>An instance: a transcript of three spaces, and an oracle that would raise.\<close>

theorem input_error_returned_witness:
  "list_all isspace (preprocess_text ''   '')
   \<and> answer_question default_config
         (Inr (\<lambda>question context max_answer_len. Inl PipelineError)) ''   '' ''Who said hello?''
       = Some input_error_result
   \<and> confidence input_error_result = 0 \<and> source_text input_error_result = []"
proof -
  have h: "list_all isspace (preprocess_text ''   '')" by code_simp
  then have "list_all isspace (preprocess_text ''   '')
             \<or> list_all isspace (preprocess_question ''Who said hello?'')"
    by simp
  from input_error_returned [OF this] h show ?thesis by simp
qed

section \<open>Exceptions and results of \<^verbatim>\<open>answer_question\<close>\<close>





end
